theory Spec2Isabelle
  imports Main "HOL-Library.Sublist" "HOL-Library.Word"
begin

section \<open>Go string functions called by the client\<close>

text \<open>
  \<^verbatim>\<open>strings.Index(s, substr)\<close>: the position of the first occurrence of \<open>substr\<close> in
  \<open>s\<close>; Go's \<open>-1\<close> is \<open>None\<close>. A Go string is a byte sequence, here a \<open>char list\<close>.
\<close>

fun Index :: "string \<Rightarrow> string \<Rightarrow> nat option" where
  "Index [] substr = (if substr = [] then Some 0 else None)"
| "Index (c # cs) substr =
     (if prefix substr (c # cs) then Some 0 else map_option Suc (Index cs substr))"

text \<open>\<^verbatim>\<open>strings.Contains(s, substr)\<close> is \<^verbatim>\<open>Index(s, substr) >= 0\<close>.\<close>

definition Contains :: "string \<Rightarrow> string \<Rightarrow> bool" where
  "Contains s substr = (Index s substr \<noteq> None)"

text \<open>
  \<^verbatim>\<open>strings.Split(s, sep)\<close>: cut \<open>s\<close> at every occurrence of \<open>sep\<close>, found from the left
  and not overlapping; \<open>n\<close> occurrences give \<open>n + 1\<close> parts. With an empty separator Go
  explodes the string (into UTF-8 sequences; into bytes here); the client only ever
  passes the separator \<open>---\<close>.
\<close>

function Split :: "string \<Rightarrow> string \<Rightarrow> string list" where
  "Split s sep =
     (if sep = [] then map (\<lambda>c. [c]) s
      else case Index s sep of
             None \<Rightarrow> [s]
           | Some m \<Rightarrow> take m s # Split (drop (m + length sep) s) sep)"
  by pat_completeness auto
termination
proof (relation "measure (\<lambda>(s, sep). length s)")
  show "wf (measure (\<lambda>(s, sep). length s))" by simp
next
  fix s sep :: string and m
  assume sep: "sep \<noteq> []" and found: "Index s sep = Some m"
  have "Index t sep = Some k \<Longrightarrow> k + length sep \<le> length t" for t k
  proof (induction t arbitrary: k)
    case Nil
    then show ?case by (simp split: if_splits)
  next
    case (Cons c cs)
    show ?case
    proof (cases "prefix sep (c # cs)")
      case True
      with Cons.prems have "k = 0" by simp
      with prefix_length_le [OF True] show ?thesis by simp
    next
      case False
      with Cons.prems obtain n where "Index cs sep = Some n" "k = Suc n" by auto
      with Cons.IH show ?thesis by force
    qed
  qed
  with found have "m + length sep \<le> length s" by blast
  with sep have "length s - (m + length sep) < length s" by (cases sep) simp_all
  then show "((drop (m + length sep) s, sep), s, sep) \<in> measure (\<lambda>(s, sep). length s)"
    by simp
qed

declare Split.simps [simp del]

text \<open>The decimal rendering of \<^verbatim>\<open>%d\<close> in \<^verbatim>\<open>fmt.Errorf\<close>.\<close>

function decimal :: "nat \<Rightarrow> string" where
  "decimal n =
     (if n < 10 then [''0123456789'' ! n]
      else decimal (n div 10) @ [''0123456789'' ! (n mod 10)])"
  by pat_completeness auto
termination
  by (relation "measure id") auto

declare decimal.simps [simp del]

section \<open>Data model\<close>

text \<open>\<^verbatim>\<open>type Song struct { Title, Artist, YouTubeID string }\<close>\<close>

record Song =
  Title :: string
  Artist :: string
  YouTubeID :: string

text \<open>The zero value \<^verbatim>\<open>Song{}\<close>.\<close>

definition Song_zero :: Song where
  "Song_zero = \<lparr>Title = [], Artist = [], YouTubeID = []\<rparr>"

text \<open>
  Modelled from the spec: the type \<^verbatim>\<open>models.Couple\<close> is declared in a package that is
  not part of the sources at hand. The spec gives it two unsigned integer fields,
  \<open>anchorTimeMs\<close> and \<open>songID\<close>; song identifiers are \<^verbatim>\<open>uint32\<close> in the client
  interface, and the same width is taken for the time offset.
\<close>

record Couple =
  AnchorTimeMs :: "32 word"
  SongID :: "32 word"

text \<open>\<^verbatim>\<open>const FILTER_KEYS = "_id | ytID | key"\<close>\<close>

definition FILTER_KEYS :: string where
  "FILTER_KEYS = ''_id | ytID | key''"

text \<open>
  The errors the client returns, one constructor for each place that builds one; the
  argument is the text of the wrapped engine error. \<open>Error\<close> is the message Go's
  \<^verbatim>\<open>err.Error()\<close> yields.
\<close>

datatype error =
    UnsupportedBackend
  | EngineError string
  | UpsertError string
  | RetrieveError "32 word" string
  | DuplicateSong string
  | WriteError string
  | InvalidFilter
  | ReadError string
  | CorruptRecord

fun Error :: "error \<Rightarrow> string" where
  "Error UnsupportedBackend = ''unsupported database''"
| "Error (EngineError e) = e"
| "Error (UpsertError e) = ''error upserting document: '' @ e"
| "Error (RetrieveError address e) =
     ''error retrieving document for address '' @ decimal (unat address) @ '': '' @ e"
| "Error (DuplicateSong e) = ''song with ytID or key already exists: '' @ e"
| "Error (WriteError e) = ''failed to register song: '' @ e"
| "Error InvalidFilter = ''invalid filter key''"
| "Error (ReadError e) = ''failed to retrieve song: '' @ e"
| "Error CorruptRecord = ''invalid key format''"

section \<open>The SQL engine behind \<^verbatim>\<open>database/sql\<close>\<close>

text \<open>
  The client talks to SQLite through \<^verbatim>\<open>database/sql\<close>. The engine is modelled by the two
  tables \<^verbatim>\<open>InitTables\<close> creates, with the constraints it declares:
  \<^verbatim>\<open>fingerprints(address INTEGER PRIMARY KEY, anchorTimeMs INTEGER, songID INTEGER)\<close> and
  \<^verbatim>\<open>songs(id INTEGER PRIMARY KEY, key TEXT UNIQUE, ytID TEXT UNIQUE)\<close>.
  An \<^verbatim>\<open>INTEGER\<close> cell holds a (64-bit) integer, a \<^verbatim>\<open>TEXT\<close> cell a string.
\<close>

datatype sqlval = SqlInt int | SqlText string

record fp_row =
  row_address :: int
  row_anchorTimeMs :: int
  row_songID :: int

record song_row =
  song_id :: int
  song_key :: string
  song_ytID :: string

record tables =
  fingerprints :: "fp_row list"
  songs :: "song_row list"

text \<open>
  The state behind a \<^verbatim>\<open>*sql.DB\<close> handle: the persisted tables, the image a rollback of
  the open transaction restores (\<open>None\<close> when no transaction is open), the statements
  sent to the engine so far, and the outcomes the engine will report for its next calls
  (\<open>Some msg\<close> is an I/O failure with that message, \<open>None\<close> and an exhausted list are
  calls that run).
\<close>

record sql_DB =
  stored :: tables
  undo :: "tables option"
  statements :: "string list"
  faults :: "string option list"

text \<open>One call into the engine: the statement is recorded and the next outcome taken.\<close>

definition engine_call :: "string \<Rightarrow> sql_DB \<Rightarrow> string option \<times> sql_DB" where
  "engine_call stmt d =
     (case faults d of
        [] \<Rightarrow> (None, d\<lparr>statements := statements d @ [stmt]\<rparr>)
      | f # fs \<Rightarrow> (f, d\<lparr>statements := statements d @ [stmt], faults := fs\<rparr>))"

subsection \<open>Transactions and the fingerprint table\<close>

definition UPSERT_SQL :: string where
  "UPSERT_SQL = ''INSERT INTO fingerprints (address, anchorTimeMs, songID) VALUES (?, ?, ?) ON CONFLICT(address) DO UPDATE SET anchorTimeMs=excluded.anchorTimeMs, songID=excluded.songID''"

definition SELECT_COUPLES_SQL :: string where
  "SELECT_COUPLES_SQL = ''SELECT anchorTimeMs, songID FROM fingerprints WHERE address = ?''"

text \<open>\<^verbatim>\<open>db.Begin()\<close>: on success the current tables become the rollback image.\<close>

definition Begin :: "sql_DB \<Rightarrow> string option \<times> sql_DB" where
  "Begin d =
     (case engine_call ''BEGIN'' d of
        (Some e, d') \<Rightarrow> (Some e, d')
      | (None, d') \<Rightarrow> (None, d'\<lparr>undo := Some (stored d')\<rparr>))"

text \<open>\<^verbatim>\<open>tx.Prepare(query)\<close> compiles the statement and changes no table.\<close>

definition Prepare :: "string \<Rightarrow> sql_DB \<Rightarrow> string option \<times> sql_DB" where
  "Prepare query d = engine_call query d"

text \<open>
  The upsert statement on one row: \<^verbatim>\<open>ON CONFLICT(address) DO UPDATE\<close> rewrites the row
  that holds the address, and a new row is added when there is none.
\<close>

definition upsert :: "int \<Rightarrow> int \<Rightarrow> int \<Rightarrow> fp_row list \<Rightarrow> fp_row list" where
  "upsert a t s rows =
     (if a \<in> set (map row_address rows)
      then map (\<lambda>r. if row_address r = a
                    then r\<lparr>row_anchorTimeMs := t, row_songID := s\<rparr> else r) rows
      else rows @ [\<lparr>row_address = a, row_anchorTimeMs = t, row_songID = s\<rparr>])"

text \<open>\<^verbatim>\<open>stmt.Exec(address, anchorTimeMs, songID)\<close>: a statement that fails changes nothing.\<close>

definition Stmt_Exec :: "int \<Rightarrow> int \<Rightarrow> int \<Rightarrow> sql_DB \<Rightarrow> string option \<times> sql_DB" where
  "Stmt_Exec a t s d =
     (case engine_call UPSERT_SQL d of
        (Some e, d') \<Rightarrow> (Some e, d')
      | (None, d') \<Rightarrow>
          (None, d'\<lparr>stored := (stored d')\<lparr>fingerprints := upsert a t s (fingerprints (stored d'))\<rparr>\<rparr>))"

text \<open>
  \<^verbatim>\<open>tx.Commit()\<close>: on success the transaction's writes stay and the transaction is over.
  When the engine fails to commit, the driver rolls the transaction back before it
  returns the error.
\<close>

definition Commit :: "sql_DB \<Rightarrow> string option \<times> sql_DB" where
  "Commit d =
     (case engine_call ''COMMIT'' d of
        (Some e, d') \<Rightarrow>
          (Some e, (case undo d' of
                      None \<Rightarrow> d'
                    | Some t \<Rightarrow> d'\<lparr>stored := t, undo := None,
                                  statements := statements d' @ [''ROLLBACK'']\<rparr>))
      | (None, d') \<Rightarrow> (None, d'\<lparr>undo := None\<rparr>))"

text \<open>
  \<^verbatim>\<open>tx.Rollback()\<close>: restores the image taken at \<open>Begin\<close>; on a transaction that is
  already over (committed or rolled back) it does nothing (\<^verbatim>\<open>sql.ErrTxDone\<close>). The
  client ignores its result.
\<close>

definition Rollback :: "sql_DB \<Rightarrow> sql_DB" where
  "Rollback d =
     (case undo d of
        None \<Rightarrow> d
      | Some t \<Rightarrow> d\<lparr>stored := t, undo := None, statements := statements d @ [''ROLLBACK'']\<rparr>)"

text \<open>
  \<^verbatim>\<open>db.Query(SELECT ..., address)\<close>: the \<open>(anchorTimeMs, songID)\<close> cells of the rows
  with that address, in table order.
\<close>

definition Query_couples :: "int \<Rightarrow> sql_DB \<Rightarrow> (string + (int \<times> int) list) \<times> sql_DB" where
  "Query_couples a d =
     (case engine_call SELECT_COUPLES_SQL d of
        (Some e, d') \<Rightarrow> (Inl e, d')
      | (None, d') \<Rightarrow>
          (Inr (map (\<lambda>r. (row_anchorTimeMs r, row_songID r))
                  (filter (\<lambda>r. row_address r = a) (fingerprints (stored d')))), d'))"

text \<open>
  \<^verbatim>\<open>rows.Scan(&couple.AnchorTimeMs, &couple.SongID)\<close>: an integer cell converts to
  \<^verbatim>\<open>uint32\<close> when it is in range, and the scan fails otherwise.
\<close>

definition Scan_couple :: "int \<times> int \<Rightarrow> string + Couple" where
  "Scan_couple cells =
     (case cells of (t, s) \<Rightarrow>
        if 0 \<le> t \<and> t < 2 ^ 32 \<and> 0 \<le> s \<and> s < 2 ^ 32
        then Inr \<lparr>AnchorTimeMs = word_of_int t, SongID = word_of_int s\<rparr>
        else Inl ''sql: Scan error: value out of range'')"

subsection \<open>The songs table\<close>

definition INSERT_SONG_SQL :: string where
  "INSERT_SONG_SQL = ''INSERT INTO songs (id, key, ytID) VALUES (?, ?, ?)''"

text \<open>
  \<^verbatim>\<open>db.Exec(INSERT INTO songs ...)\<close>: the primary key and the two \<^verbatim>\<open>UNIQUE\<close> columns
  are checked against every stored row; SQLite names the violated column in its message.
\<close>

definition Exec_insert_song :: "int \<Rightarrow> string \<Rightarrow> string \<Rightarrow> sql_DB \<Rightarrow> string option \<times> sql_DB" where
  "Exec_insert_song i k y d =
     (case engine_call INSERT_SONG_SQL d of
        (Some e, d') \<Rightarrow> (Some e, d')
      | (None, d') \<Rightarrow>
          (if i \<in> set (map song_id (songs (stored d')))
           then (Some ''UNIQUE constraint failed: songs.id'', d')
           else if k \<in> set (map song_key (songs (stored d')))
           then (Some ''UNIQUE constraint failed: songs.key'', d')
           else if y \<in> set (map song_ytID (songs (stored d')))
           then (Some ''UNIQUE constraint failed: songs.ytID'', d')
           else (None, d'\<lparr>stored := (stored d')\<lparr>songs := songs (stored d') @
                   [\<lparr>song_id = i, song_key = k, song_ytID = y\<rparr>]\<rparr>\<rparr>)))"

text \<open>
  How the engine compiles the text of a \<^verbatim>\<open>SELECT key, ytID FROM songs WHERE ...\<close>
  statement: either it rejects the text with a message, or it yields the row test the
  \<^verbatim>\<open>WHERE\<close> clause stands for, given the bound parameter. The client builds that text
  from a caller's string, so the compilation is a parameter of the model.
\<close>

type_synonym select_sem = "string \<Rightarrow> string + (sqlval \<Rightarrow> song_row \<Rightarrow> bool)"

text \<open>
  The compilation of the three statements that name one column of \<open>songs\<close>, for a
  parameter of the column's storage class. Every other text is rejected, as SQLite
  rejects an empty \<^verbatim>\<open>WHERE\<close> expression or an unknown column.
\<close>

definition column_select :: select_sem where
  "column_select query =
     (if query = ''SELECT key, ytID FROM songs WHERE id = ?''
      then Inr (\<lambda>v r. v = SqlInt (song_id r))
      else if query = ''SELECT key, ytID FROM songs WHERE ytID = ?''
      then Inr (\<lambda>v r. v = SqlText (song_ytID r))
      else if query = ''SELECT key, ytID FROM songs WHERE key = ?''
      then Inr (\<lambda>v r. v = SqlText (song_key r))
      else Inl ''SQL logic error'')"

text \<open>
  The outcome of \<^verbatim>\<open>db.QueryRow(query, value).Scan(&key, &ytID)\<close>: an engine error,
  \<^verbatim>\<open>sql.ErrNoRows\<close> when no row passes the test, or the two cells of the first row
  that does.
\<close>

datatype row_error = ErrNoRows | SqlError string

definition QueryRow_song ::
  "select_sem \<Rightarrow> string \<Rightarrow> sqlval \<Rightarrow> sql_DB \<Rightarrow> (row_error + string \<times> string) \<times> sql_DB" where
  "QueryRow_song W query v d =
     (case engine_call query d of
        (Some e, d') \<Rightarrow> (Inl (SqlError e), d')
      | (None, d') \<Rightarrow>
          (case W query of
             Inl e \<Rightarrow> (Inl (SqlError e), d')
           | Inr p \<Rightarrow>
               (case find (p v) (songs (stored d')) of
                  None \<Rightarrow> (Inl ErrNoRows, d')
                | Some r \<Rightarrow> (Inr (song_key r, song_ytID r), d'))))"

section \<open>The client: \<^verbatim>\<open>NewDbClient\<close>\<close>

text \<open>
  \<open>storageType\<close> is what \<^verbatim>\<open>os.Getenv("STORAGE_TYPE")\<close> returns, the empty string when
  the variable is not set. The two constructors are calls whose results are returned as
  they are; \<open>newMongoDB\<close> and \<open>newSQLiteDB\<close> stand for these results.
\<close>

definition NewDbClient :: "string \<Rightarrow> error + 'c \<Rightarrow> error + 'c \<Rightarrow> error + 'c" where
  "NewDbClient getenv newMongoDB newSQLiteDB =
     (let storageType = getenv;
          storageType = (if storageType = [] then ''mongodb'' else storageType)
      in if storageType = ''mongodb'' then newMongoDB
         else if storageType = ''sqlite'' then newSQLiteDB
         else Inl UnsupportedBackend)"

section \<open>The client: fingerprints\<close>

text \<open>
  The loop of \<open>StoreFingerprints\<close> over the batch. The batch is a Go map, which holds
  one couple for an address; the list is its entries in the order the \<^verbatim>\<open>range\<close>
  loop visits them, an order the runtime chooses.
\<close>

fun exec_all :: "sql_DB \<Rightarrow> (32 word \<times> Couple) list \<Rightarrow> error option \<times> sql_DB" where
  "exec_all d [] = (None, d)"
| "exec_all d ((address, couple) # rest) =
     (case Stmt_Exec (uint address) (uint (AnchorTimeMs couple)) (uint (SongID couple)) d of
        (Some e, d') \<Rightarrow> (Some (UpsertError e), d')
      | (None, d') \<Rightarrow> exec_all d' rest)"

text \<open>
  \<open>StoreFingerprints\<close>. A failed \<open>Begin\<close> returns before the rollback is deferred;
  after that the deferred \<^verbatim>\<open>tx.Rollback()\<close> runs on every return.
\<close>

definition StoreFingerprints :: "sql_DB \<Rightarrow> (32 word \<times> Couple) list \<Rightarrow> error option \<times> sql_DB" where
  "StoreFingerprints d batch =
     (case Begin d of
        (Some e, d1) \<Rightarrow> (Some (EngineError e), d1)
      | (None, d1) \<Rightarrow>
          (case (case Prepare UPSERT_SQL d1 of
                   (Some e, d2) \<Rightarrow> (Some (EngineError e), d2)
                 | (None, d2) \<Rightarrow>
                     (case exec_all d2 batch of
                        (Some e, d3) \<Rightarrow> (Some e, d3)
                      | (None, d3) \<Rightarrow>
                          (case Commit d3 of
                             (Some e, d4) \<Rightarrow> (Some (EngineError e), d4)
                           | (None, d4) \<Rightarrow> (None, d4))))
           of (r, d5) \<Rightarrow> (r, Rollback d5)))"

text \<open>The inner loop of \<open>GetCouples\<close>: scan every row and append the couple.\<close>

fun scan_rows :: "(int \<times> int) list \<Rightarrow> string + Couple list" where
  "scan_rows [] = Inr []"
| "scan_rows (cells # rest) =
     (case Scan_couple cells of
        Inl e \<Rightarrow> Inl e
      | Inr couple \<Rightarrow>
          (case scan_rows rest of
             Inl e \<Rightarrow> Inl e
           | Inr docCouples \<Rightarrow> Inr (couple # docCouples)))"

text \<open>The outer loop of \<open>GetCouples\<close>, with the map \<open>couples\<close> built so far.\<close>

fun GetCouples_loop ::
  "sql_DB \<Rightarrow> 32 word list \<Rightarrow> (32 word \<rightharpoonup> Couple list)
     \<Rightarrow> (error + (32 word \<rightharpoonup> Couple list)) \<times> sql_DB" where
  "GetCouples_loop d [] couples = (Inr couples, d)"
| "GetCouples_loop d (address # rest) couples =
     (case Query_couples (uint address) d of
        (Inl e, d') \<Rightarrow> (Inl (RetrieveError address e), d')
      | (Inr rows, d') \<Rightarrow>
          (case scan_rows rows of
             Inl e \<Rightarrow> (Inl (EngineError e), d')
           | Inr docCouples \<Rightarrow> GetCouples_loop d' rest (couples(address \<mapsto> docCouples))))"

definition GetCouples ::
  "sql_DB \<Rightarrow> 32 word list \<Rightarrow> (error + (32 word \<rightharpoonup> Couple list)) \<times> sql_DB" where
  "GetCouples d addresses = GetCouples_loop d addresses Map.empty"

section \<open>The client: songs\<close>

text \<open>
  Modelled from the spec: \<^verbatim>\<open>GenerateSongKey\<close> is defined in a file that is not part of
  the sources at hand. The spec gives the key as the title, the separator \<open>---\<close> and
  the artist.
\<close>

definition GenerateSongKey :: "string \<Rightarrow> string \<Rightarrow> string" where
  "GenerateSongKey songTitle songArtist = songTitle @ ''---'' @ songArtist"

text \<open>
  \<open>RegisterSong\<close>. \<^verbatim>\<open>GenerateUniqueID()\<close> draws a fresh number on every call; \<open>newID\<close>
  is the number it returns in this call.
\<close>

definition RegisterSong ::
  "32 word \<Rightarrow> sql_DB \<Rightarrow> string \<Rightarrow> string \<Rightarrow> string \<Rightarrow> (error + 32 word) \<times> sql_DB" where
  "RegisterSong newID d songTitle songArtist ytID =
     (let songID = newID;
          key = GenerateSongKey songTitle songArtist
      in case Exec_insert_song (uint songID) key ytID d of
           (Some e, d') \<Rightarrow>
             (if Contains e ''UNIQUE constraint failed''
              then (Inl (DuplicateSong e), d')
              else (Inl (WriteError e), d'))
         | (None, d') \<Rightarrow> (Inr songID, d'))"

text \<open>
  \<open>GetSong\<close>. The \<^verbatim>\<open>interface{}\<close> value is the SQL value the driver binds: an integer
  for a \<^verbatim>\<open>uint32\<close>, a text for a string.
\<close>

definition GetSong ::
  "select_sem \<Rightarrow> sql_DB \<Rightarrow> string \<Rightarrow> sqlval \<Rightarrow> (Song \<times> bool \<times> error option) \<times> sql_DB" where
  "GetSong W d filterKey v =
     (if \<not> Contains FILTER_KEYS filterKey
      then ((Song_zero, False, Some InvalidFilter), d)
      else
        (let query = ''SELECT key, ytID FROM songs WHERE '' @ filterKey @ '' = ?''
         in case QueryRow_song W query v d of
              (Inl ErrNoRows, d') \<Rightarrow> ((Song_zero, False, None), d')
            | (Inl (SqlError e), d') \<Rightarrow> ((Song_zero, False, Some (ReadError e)), d')
            | (Inr (k, y), d') \<Rightarrow>
                (let parts = Split k ''---''
                 in if length parts \<noteq> 2
                    then ((Song_zero, False, Some CorruptRecord), d')
                    else ((\<lparr>Title = parts ! 0, Artist = parts ! 1, YouTubeID = y\<rparr>,
                           True, None), d'))))"

definition GetSongByID ::
  "select_sem \<Rightarrow> sql_DB \<Rightarrow> 32 word \<Rightarrow> (Song \<times> bool \<times> error option) \<times> sql_DB" where
  "GetSongByID W d songID = GetSong W d ''id'' (SqlInt (uint songID))"

definition GetSongByYTID ::
  "select_sem \<Rightarrow> sql_DB \<Rightarrow> string \<Rightarrow> (Song \<times> bool \<times> error option) \<times> sql_DB" where
  "GetSongByYTID W d ytID = GetSong W d ''ytID'' (SqlText ytID)"

definition GetSongByKey ::
  "select_sem \<Rightarrow> sql_DB \<Rightarrow> string \<Rightarrow> (Song \<times> bool \<times> error option) \<times> sql_DB" where
  "GetSongByKey W d key = GetSong W d ''key'' (SqlText key)"

section \<open>Notions used to state the properties\<close>

text \<open>The engine's next \<open>n\<close> calls run: none of them is an I/O failure.\<close>

definition runs :: "nat \<Rightarrow> sql_DB \<Rightarrow> bool" where
  "runs n d = (\<forall>f \<in> set (take n (faults d)). f = None)"

text \<open>A database right after \<^verbatim>\<open>InitTables\<close>: both tables empty, no transaction open.\<close>

definition empty_db :: sql_DB where
  "empty_db =
     \<lparr>stored = \<lparr>fingerprints = [], songs = []\<rparr>, undo = None, statements = [], faults = []\<rparr>"

text \<open>A registry of two songs; the key of the second has no separator.\<close>

definition two_songs :: sql_DB where
  "two_songs = empty_db\<lparr>stored := \<lparr>fingerprints = [],
      songs = [\<lparr>song_id = 42, song_key = ''Song A---Artist X'', song_ytID = ''yt123''\<rparr>,
               \<lparr>song_id = 43, song_key = ''Song B'', song_ytID = ''yt456''\<rparr>]\<rparr>\<rparr>"

text \<open>The row an entry of a batch is stored as.\<close>

definition couple_row :: "32 word \<Rightarrow> Couple \<Rightarrow> fp_row" where
  "couple_row a c =
     \<lparr>row_address = uint a, row_anchorTimeMs = uint (AnchorTimeMs c), row_songID = uint (SongID c)\<rparr>"

text \<open>The fingerprint table after the upsert of every entry of a batch, in order.\<close>

fun store_rows :: "(32 word \<times> Couple) list \<Rightarrow> fp_row list \<Rightarrow> fp_row list" where
  "store_rows [] rows = rows"
| "store_rows ((a, c) # rest) rows =
     store_rows rest (upsert (uint a) (uint (AnchorTimeMs c)) (uint (SongID c)) rows)"

text \<open>
  What the schema and the client keep true of the fingerprint table: \<open>address\<close> is a
  primary key, and the other cells are values a \<^verbatim>\<open>uint32\<close> was stored from.
\<close>

definition primary_key :: "fp_row list \<Rightarrow> bool" where
  "primary_key rows = distinct (map row_address rows)"

definition uint32_cells :: "fp_row list \<Rightarrow> bool" where
  "uint32_cells rows =
     (\<forall>r \<in> set rows. 0 \<le> row_anchorTimeMs r \<and> row_anchorTimeMs r < 2 ^ 32
                     \<and> 0 \<le> row_songID r \<and> row_songID r < 2 ^ 32)"

text \<open>The rows of the fingerprint table that hold an address.\<close>

definition rows_at :: "int \<Rightarrow> fp_row list \<Rightarrow> fp_row list" where
  "rows_at a rows = filter (\<lambda>r. row_address r = a) rows"

text \<open>The two cells a query on the fingerprint table returns of a row, and the couple
  a scan makes of them.\<close>

definition cells :: "fp_row \<Rightarrow> int \<times> int" where
  "cells r = (row_anchorTimeMs r, row_songID r)"

definition row_couple :: "fp_row \<Rightarrow> Couple" where
  "row_couple r =
     \<lparr>AnchorTimeMs = word_of_int (row_anchorTimeMs r), SongID = word_of_int (row_songID r)\<rparr>"

text \<open>Example batches and databases, on which the properties below are run.\<close>

definition two_entries :: "(32 word \<times> Couple) list" where
  "two_entries = [(100, \<lparr>AnchorTimeMs = 500, SongID = 1\<rparr>), (200, \<lparr>AnchorTimeMs = 900, SongID = 2\<rparr>)]"

definition first_batch :: "(32 word \<times> Couple) list" where
  "first_batch = [(100, \<lparr>AnchorTimeMs = 500, SongID = 1\<rparr>)]"

definition second_batch :: "(32 word \<times> Couple) list" where
  "second_batch = [(100, \<lparr>AnchorTimeMs = 700, SongID = 3\<rparr>)]"

definition two_rows :: sql_DB where
  "two_rows = empty_db\<lparr>stored := \<lparr>fingerprints =
      [\<lparr>row_address = 100, row_anchorTimeMs = 500, row_songID = 1\<rparr>,
       \<lparr>row_address = 200, row_anchorTimeMs = 900, row_songID = 2\<rparr>], songs = []\<rparr>\<rparr>"

text \<open>An engine whose fourth call fails.\<close>

definition failing_db :: sql_DB where
  "failing_db = empty_db\<lparr>faults := [None, None, None, Some ''disk I/O error'']\<rparr>"

section \<open>The engine's calls\<close>

lemma engine_call_fst: "fst (engine_call q d) = (case faults d of [] \<Rightarrow> None | f # fs \<Rightarrow> f)"
  by (simp add: engine_call_def split: list.splits)

lemma engine_call_stored [simp]: "stored (snd (engine_call q d)) = stored d"
  by (simp add: engine_call_def split: list.splits)

lemma engine_call_undo [simp]: "undo (snd (engine_call q d)) = undo d"
  by (simp add: engine_call_def split: list.splits)

lemma engine_call_faults [simp]: "faults (snd (engine_call q d)) = tl (faults d)"
  by (simp add: engine_call_def split: list.splits)

lemma engine_call_runs: "runs (Suc n) d \<Longrightarrow> fst (engine_call q d) = None \<and> runs n (snd (engine_call q d))"
  by (cases "faults d") (auto simp: runs_def engine_call_def)

lemma runs_Suc:
  "runs (Suc n) d \<Longrightarrow> (faults d = [] \<or> (\<exists>fs. faults d = None # fs)) \<and> (\<forall>f \<in> set (take n (tl (faults d))). f = None)"
  by (cases "faults d") (auto simp: runs_def)

section \<open>Properties of \<^verbatim>\<open>NewDbClient\<close>\<close>

text \<open>
  Claim C9. \<^verbatim>\<open>NewDbClient\<close> selects the document backend when the configuration value
  is unset (\<^verbatim>\<open>os.Getenv\<close> then returns the empty string), the matching backend for each
  of the two values \<open>mongodb\<close> and \<open>sqlite\<close>, and fails with the unsupported-backend
  error for every other value.
\<close>

theorem NewDbClient_selects:
  "NewDbClient [] m s = m \<and> NewDbClient ''mongodb'' m s = m \<and> NewDbClient ''sqlite'' m s = s
   \<and> (v \<notin> {[], ''mongodb'', ''sqlite''} \<longrightarrow> NewDbClient v m s = Inl UnsupportedBackend)"
  by (simp add: NewDbClient_def)

theorem NewDbClient_selects_witness:
  "NewDbClient [] (Inr ''MongoDB'') (Inr ''SQLite'') = Inr ''MongoDB''
   \<and> NewDbClient ''sqlite'' (Inr ''MongoDB'') (Inr ''SQLite'') = Inr ''SQLite''
   \<and> NewDbClient ''postgres'' (Inr ''MongoDB'') (Inr ''SQLite'') = Inl UnsupportedBackend"
  using NewDbClient_selects [of "Inr ''MongoDB''" "Inr ''SQLite''" "''postgres''"] by simp

section \<open>Properties of \<^verbatim>\<open>GetSong\<close>\<close>

subsection \<open>The filter key\<close>

text \<open>
  A filter key that is not a substring of \<open>FILTER_KEYS\<close> is rejected before any
  statement is sent: the database is returned as it was.
\<close>

lemma GetSong_rejects:
  "\<not> Contains FILTER_KEYS filterKey \<Longrightarrow> GetSong W d filterKey v = ((Song_zero, False, Some InvalidFilter), d)"
  by (simp add: GetSong_def)

lemma address_rejected: "\<not> Contains FILTER_KEYS ''address''"
  by code_simp

lemma GetSong_address:
  "GetSong W d ''address'' v = ((Song_zero, False, Some InvalidFilter), d)"
  by (rule GetSong_rejects [OF address_rejected])

lemma valid_accepted: "Contains FILTER_KEYS ''id''" "Contains FILTER_KEYS ''ytID''" "Contains FILTER_KEYS ''key''"
  by code_simp+

lemma empty_accepted: "Contains FILTER_KEYS []"
  by code_simp

lemma substrings_accepted:
  "Contains FILTER_KEYS ''_id''" "Contains FILTER_KEYS ''y''" "Contains FILTER_KEYS ''d | yt''"
  "Contains FILTER_KEYS ''id | ytID''"
  by code_simp+

text \<open>
  A filter key that is a substring of \<open>FILTER_KEYS\<close> is not rejected, whatever the engine
  makes of the statement: the statement is sent and the error, if any, is not
  \<open>InvalidFilter\<close>.
\<close>

lemma GetSong_reaches_engine:
  assumes "Contains FILTER_KEYS filterKey"
  shows "statements (snd (GetSong W d filterKey v)) =
           statements d @ [''SELECT key, ytID FROM songs WHERE '' @ filterKey @ '' = ?'']
       \<and> snd (snd (fst (GetSong W d filterKey v))) \<noteq> Some InvalidFilter"
  using assms
  by (auto simp: GetSong_def Let_def QueryRow_song_def engine_call_def
      split: list.splits option.splits sum.splits prod.splits row_error.splits)

text \<open>
  Claim C1 says that every filter field outside \<open>{id, ytID, key}\<close> fails with
  \<open>InvalidFilter\<close> and without storage access. The check is a substring test on
  \<open>FILTER_KEYS\<close>, so it lets through every substring of that constant. For the empty
  filter key, on an empty database: the statement \<^verbatim>\<open>SELECT key, ytID FROM songs WHERE  = ?\<close>
  reaches the engine, and the error returned is the read error made of the engine's
  rejection, not \<open>InvalidFilter\<close>.
\<close>

theorem GetSong_empty_filter:
  "GetSong column_select empty_db [] (SqlInt 1) =
     ((Song_zero, False, Some (ReadError ''SQL logic error'')),
      empty_db\<lparr>statements := [''SELECT key, ytID FROM songs WHERE  = ?'']\<rparr>)"
  by (simp add: GetSong_def empty_accepted QueryRow_song_def engine_call_def empty_db_def column_select_def)

subsection \<open>Errors, not found, and the stored key\<close>

text \<open>
  Claim C10. On every error path of \<open>GetSong\<close> (invalid filter, read failure, corrupt
  stored key) the returned song is the zero value and the found flag is false.
\<close>

theorem GetSong_error_zero:
  "snd (snd (fst (GetSong W d filterKey v))) \<noteq> None \<Longrightarrow>
     fst (fst (GetSong W d filterKey v)) = Song_zero
     \<and> \<not> fst (snd (fst (GetSong W d filterKey v)))
     \<and> snd (snd (fst (GetSong W d filterKey v))) \<in>
          {Some InvalidFilter, Some CorruptRecord} \<union> range (\<lambda>m. Some (ReadError m))"
  by (auto simp: GetSong_def Let_def split: if_splits prod.splits sum.splits row_error.splits)

lemma QueryRow_song_runs:
  "runs (Suc 0) d \<Longrightarrow> W query = Inr p \<Longrightarrow>
     fst (QueryRow_song W query v d) =
       (case find (p v) (songs (stored d)) of None \<Rightarrow> Inl ErrNoRows
        | Some r \<Rightarrow> Inr (song_key r, song_ytID r))"
  using engine_call_runs [of 0 d query] engine_call_stored [of query d]
  by (cases "engine_call query d") (auto simp: QueryRow_song_def split: option.splits)

lemma column_select_id:
  "column_select (''SELECT key, ytID FROM songs WHERE '' @ ''id'' @ '' = ?'') = Inr (\<lambda>v r. v = SqlInt (song_id r))"
  by (simp add: column_select_def)

lemma split_good: "Split ''Song A---Artist X'' ''---'' = [''Song A'', ''Artist X'']"
  by code_simp

lemma split_bad: "Split ''Song B'' ''---'' = [''Song B'']"
  by code_simp

lemma GetSong_corrupt_row:
  "GetSong column_select two_songs ''id'' (SqlInt 43) =
     ((Song_zero, False, Some CorruptRecord),
      two_songs\<lparr>statements := [''SELECT key, ytID FROM songs WHERE id = ?'']\<rparr>)"
  by (simp add: GetSong_def valid_accepted QueryRow_song_def engine_call_def column_select_def
      two_songs_def empty_db_def split_bad)

theorem GetSong_error_zero_witness:
  "fst (fst (GetSong column_select two_songs ''id'' (SqlInt 43))) = Song_zero
   \<and> \<not> fst (snd (fst (GetSong column_select two_songs ''id'' (SqlInt 43))))"
proof -
  have "snd (snd (fst (GetSong column_select two_songs ''id'' (SqlInt 43)))) \<noteq> None"
    by (simp add: GetSong_corrupt_row)
  from GetSong_error_zero [OF this] show ?thesis by simp
qed

text \<open>
  Claim C6. For a valid filter field and a value that no stored song matches, \<open>GetSong\<close>
  and its three specialisations return the empty song, \<open>found = false\<close> and no error,
  when the engine runs the query.
\<close>

theorem GetSong_not_found:
  assumes "filterKey \<in> {''id'', ''ytID'', ''key''}"
    and "W (''SELECT key, ytID FROM songs WHERE '' @ filterKey @ '' = ?'') = Inr p"
    and "\<forall>r \<in> set (songs (stored d)). \<not> p v r"
    and "runs 1 d"
  shows "fst (GetSong W d filterKey v) = (Song_zero, False, None)
     \<and> (filterKey = ''id'' \<and> v = SqlInt (uint songID) \<longrightarrow>
          fst (GetSongByID W d songID) = (Song_zero, False, None))
     \<and> (filterKey = ''ytID'' \<and> v = SqlText ytID \<longrightarrow>
          fst (GetSongByYTID W d ytID) = (Song_zero, False, None))
     \<and> (filterKey = ''key'' \<and> v = SqlText key \<longrightarrow>
          fst (GetSongByKey W d key) = (Song_zero, False, None))"
proof -
  let ?q = "''SELECT key, ytID FROM songs WHERE '' @ filterKey @ '' = ?''"
  from assms(1) have acc: "Contains FILTER_KEYS filterKey"
    using valid_accepted by auto
  from assms(3) have "find (p v) (songs (stored d)) = None"
    by (simp add: find_None_iff)
  with QueryRow_song_runs [of d W ?q p v] assms(2,4)
  have "fst (QueryRow_song W ?q v d) = Inl ErrNoRows" by simp
  then have main: "fst (GetSong W d filterKey v) = (Song_zero, False, None)"
    using acc by (cases "QueryRow_song W ?q v d") (simp add: GetSong_def)
  then show ?thesis
    by (auto simp: GetSongByID_def GetSongByYTID_def GetSongByKey_def)
qed

theorem GetSong_not_found_witness:
  "fst (GetSongByID column_select empty_db 9999999) = (Song_zero, False, None)"
proof -
  have r: "runs 1 empty_db" by (simp add: runs_def empty_db_def)
  have e: "\<forall>r \<in> set (songs (stored empty_db)). \<not> (\<lambda>v r. v = SqlInt (song_id r)) (SqlInt (uint (9999999 :: 32 word))) r"
    by (simp add: empty_db_def)
  from GetSong_not_found [of "''id''" column_select _ empty_db "SqlInt (uint (9999999 :: 32 word))" 9999999, OF _ column_select_id e r]
  show ?thesis by simp
qed

text \<open>
  Claim C7. When the key of the stored song that the query finds does not split into
  exactly two parts on \<open>---\<close>, \<open>GetSong\<close> fails with the corrupt-record error and returns
  no song; when it splits into exactly two parts, these are the title and the artist of
  the song returned.
\<close>

theorem GetSong_key_split:
  assumes "Contains FILTER_KEYS filterKey"
    and "W (''SELECT key, ytID FROM songs WHERE '' @ filterKey @ '' = ?'') = Inr p"
    and "runs 1 d"
    and "find (p v) (songs (stored d)) = Some r"
  shows "(length (Split (song_key r) ''---'') \<noteq> 2 \<longrightarrow>
            fst (GetSong W d filterKey v) = (Song_zero, False, Some CorruptRecord))
     \<and> (\<forall>t a. Split (song_key r) ''---'' = [t, a] \<longrightarrow>
            fst (GetSong W d filterKey v) =
              (\<lparr>Title = t, Artist = a, YouTubeID = song_ytID r\<rparr>, True, None))"
proof -
  let ?q = "''SELECT key, ytID FROM songs WHERE '' @ filterKey @ '' = ?''"
  from QueryRow_song_runs [of d W ?q p v] assms(2,3,4)
  have "fst (QueryRow_song W ?q v d) = Inr (song_key r, song_ytID r)" by simp
  then show ?thesis
    using assms(1) by (cases "QueryRow_song W ?q v d") (auto simp: GetSong_def Let_def)
qed

theorem GetSong_key_split_witness:
  "fst (GetSong column_select two_songs ''id'' (SqlInt 42)) =
     (\<lparr>Title = ''Song A'', Artist = ''Artist X'', YouTubeID = ''yt123''\<rparr>, True, None)
   \<and> fst (GetSong column_select two_songs ''id'' (SqlInt 43)) = (Song_zero, False, Some CorruptRecord)"
proof -
  have r: "runs 1 two_songs" by (simp add: runs_def two_songs_def empty_db_def)
  have f1: "find ((\<lambda>v r. v = SqlInt (song_id r)) (SqlInt 42)) (songs (stored two_songs)) =
      Some \<lparr>song_id = 42, song_key = ''Song A---Artist X'', song_ytID = ''yt123''\<rparr>"
    by (simp add: two_songs_def empty_db_def)
  have f2: "find ((\<lambda>v r. v = SqlInt (song_id r)) (SqlInt 43)) (songs (stored two_songs)) =
      Some \<lparr>song_id = 43, song_key = ''Song B'', song_ytID = ''yt456''\<rparr>"
    by (simp add: two_songs_def empty_db_def)
  from GetSong_key_split [where W = column_select and filterKey = "''id''" and d = two_songs
           and p = "\<lambda>v r. v = SqlInt (song_id r)" and v = "SqlInt 42",
         OF valid_accepted(1) column_select_id r f1]
       GetSong_key_split [where W = column_select and filterKey = "''id''" and d = two_songs
           and p = "\<lambda>v r. v = SqlInt (song_id r)" and v = "SqlInt 43",
         OF valid_accepted(1) column_select_id r f2]
  show ?thesis by (simp add: split_good split_bad)
qed

section \<open>Properties of \<^verbatim>\<open>StoreFingerprints\<close> and \<^verbatim>\<open>GetCouples\<close>\<close>

subsection \<open>The transaction\<close>

lemma Begin_ok: "Begin d = (None, d1) \<Longrightarrow> undo d1 = Some (stored d) \<and> stored d1 = stored d"
  using engine_call_stored [of "''BEGIN''" d]
  by (cases "engine_call ''BEGIN'' d") (auto simp: Begin_def split: option.splits)

lemma Begin_fail: "Begin d = (Some e, d1) \<Longrightarrow> stored d1 = stored d \<and> undo d1 = undo d"
  using engine_call_stored [of "''BEGIN''" d] engine_call_undo [of "''BEGIN''" d]
  by (cases "engine_call ''BEGIN'' d") (auto simp: Begin_def split: option.splits)

lemma Prepare_keeps: "Prepare q d = (r, d1) \<Longrightarrow> stored d1 = stored d \<and> undo d1 = undo d"
  using engine_call_stored [of q d] engine_call_undo [of q d]
  by (simp add: Prepare_def)

lemma Stmt_Exec_ok:
  "Stmt_Exec a t s d = (None, d1) \<Longrightarrow>
     stored d1 = (stored d)\<lparr>fingerprints := upsert a t s (fingerprints (stored d))\<rparr> \<and> undo d1 = undo d"
  using engine_call_stored [of UPSERT_SQL d] engine_call_undo [of UPSERT_SQL d]
  by (cases "engine_call UPSERT_SQL d") (auto simp: Stmt_Exec_def split: option.splits)

lemma Stmt_Exec_fail:
  "Stmt_Exec a t s d = (Some e, d1) \<Longrightarrow> stored d1 = stored d \<and> undo d1 = undo d"
  using engine_call_stored [of UPSERT_SQL d] engine_call_undo [of UPSERT_SQL d]
  by (cases "engine_call UPSERT_SQL d") (auto simp: Stmt_Exec_def split: option.splits)

lemma Commit_ok: "Commit d = (None, d1) \<Longrightarrow> stored d1 = stored d \<and> undo d1 = None"
  using engine_call_stored [of "''COMMIT''" d]
  by (cases "engine_call ''COMMIT'' d") (auto simp: Commit_def split: option.splits)

lemma Commit_fail:
  "Commit d = (Some e, d1) \<Longrightarrow> undo d = Some t \<Longrightarrow> stored d1 = t \<and> undo d1 = None"
  using engine_call_undo [of "''COMMIT''" d]
  by (cases "engine_call ''COMMIT'' d") (auto simp: Commit_def split: option.splits)

lemma Rollback_open: "undo d = Some t \<Longrightarrow> stored (Rollback d) = t"
  by (simp add: Rollback_def)

lemma Rollback_done: "undo d = None \<Longrightarrow> Rollback d = d"
  by (simp add: Rollback_def)

lemma exec_all_undo: "exec_all d batch = (r, d1) \<Longrightarrow> undo d1 = undo d"
proof (induction batch arbitrary: d)
  case Nil
  then show ?case by simp
next
  case (Cons x rest)
  obtain a c where x: "x = (a, c)" by (cases x)
  obtain r' d' where s: "Stmt_Exec (uint a) (uint (AnchorTimeMs c)) (uint (SongID c)) d = (r', d')"
    by (cases "Stmt_Exec (uint a) (uint (AnchorTimeMs c)) (uint (SongID c)) d")
  show ?case
  proof (cases r')
    case None
    with Cons.prems x s have "exec_all d' rest = (r, d1)" by simp
    with Cons.IH have "undo d1 = undo d'" by blast
    with Stmt_Exec_ok s None show ?thesis by metis
  next
    case (Some e)
    with Cons.prems x s have "d1 = d'" by simp
    with Stmt_Exec_fail s Some show ?thesis by metis
  qed
qed

lemma exec_all_ok:
  "exec_all d batch = (None, d1) \<Longrightarrow>
     stored d1 = (stored d)\<lparr>fingerprints := store_rows batch (fingerprints (stored d))\<rparr>"
proof (induction batch arbitrary: d)
  case Nil
  then show ?case by simp
next
  case (Cons x rest)
  obtain a c where x: "x = (a, c)" by (cases x)
  obtain r' d' where s: "Stmt_Exec (uint a) (uint (AnchorTimeMs c)) (uint (SongID c)) d = (r', d')"
    by (cases "Stmt_Exec (uint a) (uint (AnchorTimeMs c)) (uint (SongID c)) d")
  show ?case
  proof (cases r')
    case None
    with Cons.prems x s have "exec_all d' rest = (None, d1)" by simp
    with Cons.IH have "stored d1 = (stored d')\<lparr>fingerprints := store_rows rest (fingerprints (stored d'))\<rparr>"
      by blast
    moreover from Stmt_Exec_ok s None
    have "stored d' = (stored d)\<lparr>fingerprints :=
        upsert (uint a) (uint (AnchorTimeMs c)) (uint (SongID c)) (fingerprints (stored d))\<rparr>"
      by metis
    ultimately show ?thesis using x by simp
  next
    case (Some e)
    with Cons.prems x s show ?thesis by simp
  qed
qed

lemma StoreFingerprints_tables:
  assumes "StoreFingerprints d batch = (r, d')"
  shows "case r of
           None \<Rightarrow> stored d' = (stored d)\<lparr>fingerprints := store_rows batch (fingerprints (stored d))\<rparr>
         | Some e \<Rightarrow> stored d' = stored d"
proof -
  obtain b d1 where B: "Begin d = (b, d1)" by (cases "Begin d")
  show ?thesis
  proof (cases b)
    case (Some e)
    with assms B have "r = Some (EngineError e)" "d' = d1"
      by (simp_all add: StoreFingerprints_def)
    with Begin_fail B Some show ?thesis by simp
  next
    case None
    with Begin_ok B have u1: "undo d1 = Some (stored d)" and s1: "stored d1 = stored d" by blast+
    obtain p d2 where P: "Prepare UPSERT_SQL d1 = (p, d2)" by (cases "Prepare UPSERT_SQL d1")
    with Prepare_keeps u1 s1 have u2: "undo d2 = Some (stored d)" and s2: "stored d2 = stored d"
      by metis+
    show ?thesis
    proof (cases p)
      case (Some e)
      with assms B None P have "r = Some (EngineError e)" "d' = Rollback d2"
        by (simp_all add: StoreFingerprints_def)
      with Rollback_open [OF u2] show ?thesis by simp
    next
      case pNone: None
      obtain x d3 where X: "exec_all d2 batch = (x, d3)" by (cases "exec_all d2 batch")
      with exec_all_undo u2 have u3: "undo d3 = Some (stored d)" by metis
      show ?thesis
      proof (cases x)
        case (Some e)
        with assms B None P pNone X have "r = Some e" "d' = Rollback d3"
          by (simp_all add: StoreFingerprints_def)
        with Rollback_open [OF u3] show ?thesis by simp
      next
        case xNone: None
        with exec_all_ok X s2
        have s3: "stored d3 = (stored d)\<lparr>fingerprints := store_rows batch (fingerprints (stored d))\<rparr>"
          by metis
        obtain c d4 where C: "Commit d3 = (c, d4)" by (cases "Commit d3")
        show ?thesis
        proof (cases c)
          case (Some e)
          with Commit_fail [OF _ u3] C have "stored d4 = stored d" "undo d4 = None" by blast+
          moreover from assms B None P pNone X xNone C Some
          have "r = Some (EngineError e)" "d' = Rollback d4"
            by (simp_all add: StoreFingerprints_def)
          ultimately show ?thesis by (simp add: Rollback_done)
        next
          case cNone: None
          with Commit_ok C have "stored d4 = stored d3" "undo d4 = None" by blast+
          moreover from assms B None P pNone X xNone C cNone
          have "r = None" "d' = Rollback d4"
            by (simp_all add: StoreFingerprints_def)
          ultimately show ?thesis using s3 by (simp add: Rollback_done)
        qed
      qed
    qed
  qed
qed

lemma StoreFingerprints_stored:
  "StoreFingerprints d batch = (None, d') \<Longrightarrow>
     stored d' = (stored d)\<lparr>fingerprints := store_rows batch (fingerprints (stored d))\<rparr>"
  using StoreFingerprints_tables [of d batch None d'] by simp

text \<open>
  When the engine runs every call of \<open>StoreFingerprints\<close> (the \<open>Begin\<close>, the \<open>Prepare\<close>,
  one \<open>Exec\<close> for each entry and the \<open>Commit\<close>), the batch is stored.
\<close>

lemma Begin_runs: "runs (Suc n) d \<Longrightarrow> fst (Begin d) = None \<and> runs n (snd (Begin d))"
  using engine_call_runs [of n d "''BEGIN''"]
  by (cases "engine_call ''BEGIN'' d") (auto simp: Begin_def runs_def)

lemma Prepare_runs: "runs (Suc n) d \<Longrightarrow> fst (Prepare q d) = None \<and> runs n (snd (Prepare q d))"
  using engine_call_runs [of n d q] by (simp add: Prepare_def)

lemma Stmt_Exec_runs:
  "runs (Suc n) d \<Longrightarrow> fst (Stmt_Exec a t s d) = None \<and> runs n (snd (Stmt_Exec a t s d))"
  using engine_call_runs [of n d UPSERT_SQL]
  by (cases "engine_call UPSERT_SQL d") (auto simp: Stmt_Exec_def runs_def)

lemma Commit_runs: "runs (Suc n) d \<Longrightarrow> fst (Commit d) = None \<and> runs n (snd (Commit d))"
  using engine_call_runs [of n d "''COMMIT''"]
  by (cases "engine_call ''COMMIT'' d") (auto simp: Commit_def runs_def)

lemma exec_all_runs:
  "runs (length batch + n) d \<Longrightarrow> fst (exec_all d batch) = None \<and> runs n (snd (exec_all d batch))"
proof (induction batch arbitrary: d)
  case Nil
  then show ?case by simp
next
  case (Cons x rest)
  obtain a c where x: "x = (a, c)" by (cases x)
  let ?s = "Stmt_Exec (uint a) (uint (AnchorTimeMs c)) (uint (SongID c)) d"
  from Cons.prems have "runs (Suc (length rest + n)) d" by simp
  from Stmt_Exec_runs [OF this, of "uint a" "uint (AnchorTimeMs c)" "uint (SongID c)"]
  have ok: "fst ?s = None" and run: "runs (length rest + n) (snd ?s)" by simp_all
  from ok have "exec_all d (x # rest) = exec_all (snd ?s) rest"
    using x by (cases ?s) simp
  with Cons.IH [OF run] show ?case by simp
qed

lemma Rollback_faults: "faults (Rollback d) = faults d"
  by (simp add: Rollback_def split: option.splits)

lemma StoreFingerprints_runs:
  assumes "runs (length batch + 3 + n) d"
  shows "fst (StoreFingerprints d batch) = None \<and> runs n (snd (StoreFingerprints d batch))"
proof -
  from assms have "runs (Suc (Suc (length batch + Suc n))) d" by (simp add: numeral_3_eq_3)
  from Begin_runs [OF this]
  have b: "fst (Begin d) = None" and r1: "runs (Suc (length batch + Suc n)) (snd (Begin d))"
    by simp_all
  from Prepare_runs [OF r1, of UPSERT_SQL]
  have p: "fst (Prepare UPSERT_SQL (snd (Begin d))) = None"
    and r2: "runs (length batch + Suc n) (snd (Prepare UPSERT_SQL (snd (Begin d))))"
    by simp_all
  let ?d2 = "snd (Prepare UPSERT_SQL (snd (Begin d)))"
  from exec_all_runs [OF r2]
  have x: "fst (exec_all ?d2 batch) = None" and r3: "runs (Suc n) (snd (exec_all ?d2 batch))"
    by simp_all
  let ?d3 = "snd (exec_all ?d2 batch)"
  from Commit_runs [OF r3]
  have c: "fst (Commit ?d3) = None" and r4: "runs n (snd (Commit ?d3))" by simp_all
  from b p x c have "StoreFingerprints d batch = (None, Rollback (snd (Commit ?d3)))"
    by (cases "Begin d"; cases "Prepare UPSERT_SQL (snd (Begin d))"; cases "exec_all ?d2 batch";
        cases "Commit ?d3") (simp add: StoreFingerprints_def)
  with r4 show ?thesis by (simp add: runs_def Rollback_faults)
qed

subsection \<open>The fingerprint table under upserts\<close>

lemma upsert_addresses:
  "map row_address (upsert a t s rows) =
     (if a \<in> set (map row_address rows) then map row_address rows else map row_address rows @ [a])"
  by (auto simp: upsert_def)

lemma upsert_primary_key: "primary_key rows \<Longrightarrow> primary_key (upsert a t s rows)"
  by (simp add: primary_key_def upsert_addresses)

lemma upsert_uint32_cells:
  "uint32_cells rows \<Longrightarrow> 0 \<le> t \<Longrightarrow> t < 2 ^ 32 \<Longrightarrow> 0 \<le> s \<Longrightarrow> s < 2 ^ 32 \<Longrightarrow>
     uint32_cells (upsert a t s rows)"
  by (auto simp: uint32_cells_def upsert_def)

lemma uint32_lt: "uint (w :: 32 word) < 2 ^ 32"
  using uint_lt2p [of w] by simp

lemma store_rows_primary_key: "primary_key rows \<Longrightarrow> primary_key (store_rows batch rows)"
  by (induction batch rows rule: store_rows.induct) (simp_all add: upsert_primary_key)

lemma store_rows_uint32_cells: "uint32_cells rows \<Longrightarrow> uint32_cells (store_rows batch rows)"
proof (induction batch rows rule: store_rows.induct)
  case (1 rows)
  then show ?case by simp
next
  case (2 a c rest rows)
  have "uint32_cells (upsert (uint a) (uint (AnchorTimeMs c)) (uint (SongID c)) rows)"
    by (rule upsert_uint32_cells [OF "2.prems" _ uint32_lt _ uint32_lt]) simp_all
  with "2.IH" show ?case by simp
qed

text \<open>
  The empty table has a primary key and cells in range, and a batch stored keeps both:
  they hold of every table the client has written.
\<close>

lemma empty_table_ok:
  "primary_key (fingerprints (stored empty_db)) \<and> uint32_cells (fingerprints (stored empty_db))"
  by (simp add: primary_key_def uint32_cells_def empty_db_def)

lemma StoreFingerprints_table_ok:
  assumes "StoreFingerprints d batch = (r, d')"
    and "primary_key (fingerprints (stored d))" and "uint32_cells (fingerprints (stored d))"
  shows "primary_key (fingerprints (stored d')) \<and> uint32_cells (fingerprints (stored d'))"
proof (cases r)
  case None
  with StoreFingerprints_tables [OF assms(1)]
  have "fingerprints (stored d') = store_rows batch (fingerprints (stored d))" by simp
  with store_rows_primary_key [OF assms(2)] store_rows_uint32_cells [OF assms(3)]
  show ?thesis by simp
next
  case (Some e)
  with StoreFingerprints_tables [OF assms(1)] have "stored d' = stored d" by simp
  with assms(2,3) show ?thesis by simp
qed

lemma unique_row:
  "distinct (map row_address rows) \<Longrightarrow> a \<in> set (map row_address rows) \<Longrightarrow>
     \<exists>r. rows_at a rows = [r] \<and> row_address r = a"
proof (induction rows)
  case Nil
  then show ?case by simp
next
  case (Cons x rows)
  show ?case
  proof (cases "row_address x = a")
    case True
    with Cons.prems have "a \<notin> set (map row_address rows)" by simp
    then have "filter (\<lambda>r. row_address r = a) rows = []"
      by (auto simp: filter_empty_conv)
    with True show ?thesis by (simp add: rows_at_def)
  next
    case False
    with Cons show ?thesis by (simp add: rows_at_def)
  qed
qed

lemma rows_at_absent: "a \<notin> set (map row_address rows) \<Longrightarrow> rows_at a rows = []"
  by (auto simp: rows_at_def filter_empty_conv)

lemma rows_at_length: "primary_key rows \<Longrightarrow> length (rows_at a rows) \<le> 1"
  using unique_row [of rows a] rows_at_absent [of a rows]
  by (cases "a \<in> set (map row_address rows)") (auto simp: primary_key_def)

lemma rows_at_upsert_same:
  assumes "primary_key rows"
  shows "rows_at a (upsert a t s rows) = [\<lparr>row_address = a, row_anchorTimeMs = t, row_songID = s\<rparr>]"
proof (cases "a \<in> set (map row_address rows)")
  case True
  with assms unique_row obtain r where r: "rows_at a rows = [r]" "row_address r = a"
    by (auto simp: primary_key_def)
  let ?f = "\<lambda>r. if row_address r = a then r\<lparr>row_anchorTimeMs := t, row_songID := s\<rparr> else r"
  have "rows_at a (map ?f rows) = map ?f (rows_at a rows)"
    by (induction rows) (simp_all add: rows_at_def)
  with r True show ?thesis by (simp add: upsert_def)
next
  case False
  with rows_at_absent [OF False] show ?thesis by (simp add: upsert_def rows_at_def)
qed

lemma rows_at_upsert_other: "a' \<noteq> a \<Longrightarrow> rows_at a' (upsert a t s rows) = rows_at a' rows"
proof -
  assume ne: "a' \<noteq> a"
  let ?f = "\<lambda>r. if row_address r = a then r\<lparr>row_anchorTimeMs := t, row_songID := s\<rparr> else r"
  from ne have "rows_at a' (map ?f rows) = rows_at a' rows"
    by (induction rows) (simp_all add: rows_at_def)
  with ne show ?thesis by (simp add: upsert_def rows_at_def)
qed

lemma store_rows_other:
  "a \<notin> fst ` set batch \<Longrightarrow> rows_at (uint a) (store_rows batch rows) = rows_at (uint a) rows"
proof (induction batch rows rule: store_rows.induct)
  case (1 rows)
  then show ?case by simp
next
  case (2 b c rest rows)
  then have "uint a \<noteq> uint b" by (auto simp: word_uint_eq_iff)
  with 2 show ?case by (simp add: rows_at_upsert_other)
qed

lemma store_rows_entry:
  "distinct (map fst batch) \<Longrightarrow> (a, c) \<in> set batch \<Longrightarrow> primary_key rows \<Longrightarrow>
     rows_at (uint a) (store_rows batch rows) = [couple_row a c]"
proof (induction batch rows rule: store_rows.induct)
  case (1 rows)
  then show ?case by simp
next
  case (2 b e rest rows)
  let ?rows = "upsert (uint b) (uint (AnchorTimeMs e)) (uint (SongID e)) rows"
  show ?case
  proof (cases "(a, c) = (b, e)")
    case True
    with 2 have "a \<notin> fst ` set rest" by auto
    then have "rows_at (uint a) (store_rows rest ?rows) = rows_at (uint a) ?rows"
      by (rule store_rows_other)
    with True rows_at_upsert_same [OF "2.prems"(3)] show ?thesis
      by (simp add: couple_row_def)
  next
    case False
    with 2 have "(a, c) \<in> set rest" "distinct (map fst rest)" by auto
    with "2.IH" upsert_primary_key [OF "2.prems"(3)] show ?thesis by simp
  qed
qed

lemma upsert_member:
  "\<lparr>row_address = a, row_anchorTimeMs = t, row_songID = s\<rparr> \<in> set (upsert a t s rows)"
proof (cases "a \<in> set (map row_address rows)")
  case True
  then obtain r where "r \<in> set rows" "row_address r = a" by auto
  then have "r\<lparr>row_anchorTimeMs := t, row_songID := s\<rparr> \<in> set (upsert a t s rows)"
    using True by (force simp: upsert_def)
  moreover from \<open>row_address r = a\<close>
  have "r\<lparr>row_anchorTimeMs := t, row_songID := s\<rparr> = \<lparr>row_address = a, row_anchorTimeMs = t, row_songID = s\<rparr>"
    by simp
  ultimately show ?thesis by simp
next
  case False
  then show ?thesis by (simp add: upsert_def)
qed

lemma upsert_keeps: "r \<in> set rows \<Longrightarrow> row_address r \<noteq> a \<Longrightarrow> r \<in> set (upsert a t s rows)"
  by (force simp: upsert_def)

lemma store_rows_keeps:
  "r \<in> set rows \<Longrightarrow> row_address r \<notin> uint ` fst ` set batch \<Longrightarrow> r \<in> set (store_rows batch rows)"
  by (induction batch rows rule: store_rows.induct) (auto simp: upsert_keeps)

lemma store_rows_member:
  "distinct (map fst batch) \<Longrightarrow> (a, c) \<in> set batch \<Longrightarrow> couple_row a c \<in> set (store_rows batch rows)"
proof (induction batch rows rule: store_rows.induct)
  case (1 rows)
  then show ?case by simp
next
  case (2 b e rest rows)
  let ?rows = "upsert (uint b) (uint (AnchorTimeMs e)) (uint (SongID e)) rows"
  show ?case
  proof (cases "(a, c) = (b, e)")
    case True
    with 2 have "a \<notin> fst ` set rest" by auto
    moreover have "row_address (couple_row a c) \<notin> uint ` fst ` set rest"
    proof
      assume "row_address (couple_row a c) \<in> uint ` fst ` set rest"
      then obtain x where "x \<in> fst ` set rest" "uint a = uint x"
        by (auto simp: couple_row_def)
      moreover from this have "a = x" using word_uint_eq_iff by blast
      ultimately have "a \<in> fst ` set rest" by simp
      with \<open>a \<notin> fst ` set rest\<close> show False by simp
    qed
    moreover have "couple_row a c \<in> set ?rows"
      using True upsert_member [of "uint b" "uint (AnchorTimeMs e)" "uint (SongID e)" rows]
      by (simp add: couple_row_def)
    ultimately show ?thesis using store_rows_keeps by simp
  next
    case False
    with 2 show ?thesis by auto
  qed
qed

text \<open>
  Claim C2. \<open>StoreFingerprints\<close> is all-or-nothing: when it returns no error the tables
  are the old ones with every entry of the batch upserted (each entry of a batch of
  unique addresses is then a row of the table), and when it returns an error the tables are
  the ones before the call.
\<close>

theorem StoreFingerprints_atomic:
  assumes "StoreFingerprints d batch = (r, d')"
  shows "(case r of
            None \<Rightarrow> stored d' = (stored d)\<lparr>fingerprints := store_rows batch (fingerprints (stored d))\<rparr>
          | Some e \<Rightarrow> stored d' = stored d)
     \<and> (r = None \<and> distinct (map fst batch) \<longrightarrow>
          (\<forall>a c. (a, c) \<in> set batch \<longrightarrow> couple_row a c \<in> set (fingerprints (stored d'))))"
proof -
  note main = StoreFingerprints_tables [OF assms]
  moreover have "couple_row a c \<in> set (fingerprints (stored d'))"
    if "r = None" "distinct (map fst batch)" "(a, c) \<in> set batch" for a c
    using main that store_rows_member [of batch a c "fingerprints (stored d)"] by simp
  ultimately show ?thesis by auto
qed

lemma store_failing:
  "StoreFingerprints failing_db two_entries =
     (Some (UpsertError ''disk I/O error''),
      failing_db\<lparr>statements := [''BEGIN'', UPSERT_SQL, UPSERT_SQL, UPSERT_SQL, ''ROLLBACK''], faults := []\<rparr>)"
  by (simp add: StoreFingerprints_def Begin_def Prepare_def Stmt_Exec_def Commit_def Rollback_def
      engine_call_def failing_db_def empty_db_def two_entries_def upsert_def)

lemma store_empty:
  "StoreFingerprints empty_db two_entries =
     (None, empty_db\<lparr>stored := \<lparr>fingerprints =
          [\<lparr>row_address = 100, row_anchorTimeMs = 500, row_songID = 1\<rparr>,
           \<lparr>row_address = 200, row_anchorTimeMs = 900, row_songID = 2\<rparr>], songs = []\<rparr>,
        statements := [''BEGIN'', UPSERT_SQL, UPSERT_SQL, UPSERT_SQL, ''COMMIT'']\<rparr>)"
  by (simp add: StoreFingerprints_def Begin_def Prepare_def Stmt_Exec_def Commit_def Rollback_def
      engine_call_def empty_db_def two_entries_def upsert_def)

theorem StoreFingerprints_atomic_witness:
  "fst (StoreFingerprints failing_db two_entries) = Some (UpsertError ''disk I/O error'')
   \<and> stored (snd (StoreFingerprints failing_db two_entries)) = stored failing_db
   \<and> fst (StoreFingerprints empty_db two_entries) = None
   \<and> couple_row 200 \<lparr>AnchorTimeMs = 900, SongID = 2\<rparr>
        \<in> set (fingerprints (stored (snd (StoreFingerprints empty_db two_entries))))"
proof -
  have dist: "distinct (map fst two_entries)" by (simp add: two_entries_def)
  have mem: "(200, \<lparr>AnchorTimeMs = 900, SongID = 2\<rparr>) \<in> set two_entries" by (simp add: two_entries_def)
  from StoreFingerprints_atomic [OF store_failing]
  have "stored (snd (StoreFingerprints failing_db two_entries)) = stored failing_db"
    by (simp add: store_failing)
  moreover
  from StoreFingerprints_atomic [OF store_empty, THEN conjunct2, rule_format,
      OF conjI [OF refl dist] mem]
  have "couple_row 200 \<lparr>AnchorTimeMs = 900, SongID = 2\<rparr>
      \<in> set (fingerprints (stored (snd (StoreFingerprints empty_db two_entries))))"
    by (simp only: store_empty snd_conv)
  ultimately show ?thesis by (simp add: store_failing store_empty)
qed

subsection \<open>Reading couples\<close>

lemma Query_couples_fail:
  "faults d = Some msg # fs \<Longrightarrow> fst (Query_couples a d) = Inl msg"
  by (simp add: Query_couples_def engine_call_def)

lemma Query_couples_ok:
  "faults d = [] \<or> (\<exists>fs. faults d = None # fs) \<Longrightarrow>
     fst (Query_couples a d) = Inr (map cells (rows_at a (fingerprints (stored d))))"
  by (auto simp: Query_couples_def engine_call_def cells_def rows_at_def)

lemma Query_couples_snd:
  "stored (snd (Query_couples a d)) = stored d \<and> faults (snd (Query_couples a d)) = tl (faults d)"
  using engine_call_stored [of SELECT_COUPLES_SQL d] engine_call_faults [of SELECT_COUPLES_SQL d]
  by (cases "engine_call SELECT_COUPLES_SQL d") (auto simp: Query_couples_def split: option.splits)

lemma scan_rows_cells:
  "uint32_cells rows \<Longrightarrow> scan_rows (map cells rows) = Inr (map row_couple rows)"
  by (induction rows) (auto simp: uint32_cells_def cells_def Scan_couple_def row_couple_def)

lemma uint32_cells_rows_at: "uint32_cells rows \<Longrightarrow> uint32_cells (rows_at a rows)"
  by (simp add: uint32_cells_def rows_at_def)

lemma row_couple_couple_row: "row_couple (couple_row a c) = c"
  by (simp add: row_couple_def couple_row_def)

lemma GetCouples_loop_runs:
  assumes "runs (length as) d"
    and "\<forall>a \<in> set as. scan_rows (map cells (rows_at (uint a) (fingerprints (stored d)))) = Inr (g a)"
  shows "fst (GetCouples_loop d as m) = Inr (\<lambda>a. if a \<in> set as then Some (g a) else m a)"
  using assms
proof (induction as arbitrary: d m)
  case Nil
  then show ?case by simp
next
  case (Cons a as)
  obtain r d' where Q: "Query_couples (uint a) d = (r, d')" by (cases "Query_couples (uint a) d")
  from Cons.prems(1) have rs: "faults d = [] \<or> (\<exists>fs. faults d = None # fs)"
    and rest: "\<forall>f \<in> set (take (length as) (tl (faults d))). f = None"
    using runs_Suc [of "length as" d] by simp_all
  from Query_couples_ok [OF rs, of "uint a"] Q
  have r: "r = Inr (map cells (rows_at (uint a) (fingerprints (stored d))))" by simp
  from Query_couples_snd [of "uint a" d] Q
  have d': "stored d' = stored d" "faults d' = tl (faults d)" by simp_all
  from rest d' have run': "runs (length as) d'" by (simp add: runs_def)
  from Cons.prems(2) d'
  have scans: "\<forall>x \<in> set as. scan_rows (map cells (rows_at (uint x) (fingerprints (stored d')))) = Inr (g x)"
    and scan: "scan_rows (map cells (rows_at (uint a) (fingerprints (stored d)))) = Inr (g a)"
    by simp_all
  from Q r scan
  have step: "GetCouples_loop d (a # as) m = GetCouples_loop d' as (m(a \<mapsto> g a))"
    by simp
  have upd: "(\<lambda>x. if x \<in> set as then Some (g x) else (m(a \<mapsto> g a)) x) =
      (\<lambda>x. if x \<in> set (a # as) then Some (g x) else m x)"
    by (rule ext) simp
  from Cons.IH [OF run' scans, of "m(a \<mapsto> g a)"]
  show ?case by (simp only: step upd)
qed

lemma GetCouples_loop_fails:
  assumes "uint32_cells (fingerprints (stored d))"
    and "fst (GetCouples_loop d as m) = Inl e"
  shows "\<exists>a msg. e = RetrieveError a msg \<and> a \<in> set as \<and> Some msg \<in> set (take (length as) (faults d))"
  using assms
proof (induction as arbitrary: d m)
  case Nil
  then show ?case by simp
next
  case (Cons a as)
  obtain r d' where Q: "Query_couples (uint a) d = (r, d')" by (cases "Query_couples (uint a) d")
  from Query_couples_snd [of "uint a" d] Q
  have d': "stored d' = stored d" "faults d' = tl (faults d)" by simp_all
  show ?case
  proof (cases "\<exists>msg fs. faults d = Some msg # fs")
    case True
    then obtain msg fs where f: "faults d = Some msg # fs" by blast
    from Query_couples_fail [OF f, of "uint a"] Q have "r = Inl msg" by simp
    with Cons.prems(2) Q have "e = RetrieveError a msg" by simp
    with f show ?thesis by auto
  next
    case False
    then have rs: "faults d = [] \<or> (\<exists>fs. faults d = None # fs)"
      by (cases "faults d") auto
    from Query_couples_ok [OF rs, of "uint a"] Q
    have r: "r = Inr (map cells (rows_at (uint a) (fingerprints (stored d))))" by simp
    from scan_rows_cells [OF uint32_cells_rows_at [OF Cons.prems(1)], of "uint a"]
    obtain cs where scan: "scan_rows (map cells (rows_at (uint a) (fingerprints (stored d)))) = Inr cs"
      by blast
    from Q r scan
    have step: "GetCouples_loop d (a # as) m = GetCouples_loop d' as (m(a \<mapsto> cs))"
      by simp
    from Cons.prems(2) have fails: "fst (GetCouples_loop d' as (m(a \<mapsto> cs))) = Inl e"
      by (simp only: step)
    from Cons.prems(1) d' have "uint32_cells (fingerprints (stored d'))" by simp
    from Cons.IH [OF this fails] d'
    obtain b msg where "e = RetrieveError b msg" "b \<in> set as"
      "Some msg \<in> set (take (length as) (tl (faults d)))" by auto
    moreover from this(3) have "Some msg \<in> set (take (length (a # as)) (faults d))"
      by (cases "faults d") auto
    ultimately show ?thesis by auto
  qed
qed

text \<open>
  Claim C5. On a table with its primary key and cells in range, \<open>GetCouples\<close> returns,
  when the engine runs its queries, a map whose keys are the requested addresses; each
  maps to at most one couple, to none when the address is not stored, and to the stored
  couple otherwise. When it fails, the error is an I/O failure the engine reported for
  one of its queries.
\<close>

theorem GetCouples_shape:
  assumes "primary_key (fingerprints (stored d))" and "uint32_cells (fingerprints (stored d))"
  shows "(runs (length addresses) d \<longrightarrow>
            (\<exists>m. fst (GetCouples d addresses) = Inr m \<and> dom m = set addresses
               \<and> (\<forall>a \<in> set addresses. \<exists>cs. m a = Some cs \<and> length cs \<le> 1
                     \<and> (uint a \<notin> set (map row_address (fingerprints (stored d))) \<longrightarrow> cs = [])
                     \<and> (\<forall>r \<in> set (fingerprints (stored d)).
                           row_address r = uint a \<longrightarrow> cs = [row_couple r]))))
     \<and> (\<forall>e. fst (GetCouples d addresses) = Inl e \<longrightarrow>
            (\<exists>a msg. e = RetrieveError a msg \<and> Some msg \<in> set (take (length addresses) (faults d))))"
proof (intro conjI impI allI)
  let ?rows = "fingerprints (stored d)"
  let ?g = "\<lambda>a. map row_couple (rows_at (uint a) ?rows)"
  assume run: "runs (length addresses) d"
  have scans: "\<forall>a \<in> set addresses. scan_rows (map cells (rows_at (uint a) ?rows)) = Inr (?g a)"
    using scan_rows_cells [OF uint32_cells_rows_at [OF assms(2)]] by simp
  let ?m = "\<lambda>a. if a \<in> set addresses then Some (?g a) else None"
  from GetCouples_loop_runs [OF run scans, of Map.empty]
  have res: "fst (GetCouples d addresses) = Inr ?m" by (simp add: GetCouples_def)
  have dom: "dom ?m = set addresses" by (auto simp: dom_def)
  have each: "\<exists>cs. ?m a = Some cs \<and> length cs \<le> 1
      \<and> (uint a \<notin> set (map row_address ?rows) \<longrightarrow> cs = [])
      \<and> (\<forall>r \<in> set ?rows. row_address r = uint a \<longrightarrow> cs = [row_couple r])"
    if a: "a \<in> set addresses" for a
  proof -
    have len: "length (?g a) \<le> 1" using rows_at_length [OF assms(1), of "uint a"] by simp
    have absent: "uint a \<notin> set (map row_address ?rows) \<longrightarrow> ?g a = []"
      using rows_at_absent [of "uint a" ?rows] by simp
    have present: "?g a = [row_couple r]" if "r \<in> set ?rows" "row_address r = uint a" for r
    proof -
      from that have "uint a \<in> set (map row_address ?rows)" by force
      with unique_row [of ?rows "uint a"] assms(1)
      obtain r' where r': "rows_at (uint a) ?rows = [r']" by (auto simp: primary_key_def)
      moreover from that have "r \<in> set (rows_at (uint a) ?rows)" by (simp add: rows_at_def)
      ultimately show ?thesis by simp
    qed
    from a len absent present show ?thesis by simp
  qed
  from res dom each
  show "\<exists>m. fst (GetCouples d addresses) = Inr m \<and> dom m = set addresses
      \<and> (\<forall>a \<in> set addresses. \<exists>cs. m a = Some cs \<and> length cs \<le> 1
            \<and> (uint a \<notin> set (map row_address ?rows) \<longrightarrow> cs = [])
            \<and> (\<forall>r \<in> set ?rows. row_address r = uint a \<longrightarrow> cs = [row_couple r]))"
    by blast
next
  fix e
  assume "fst (GetCouples d addresses) = Inl e"
  with GetCouples_loop_fails [OF assms(2), of addresses Map.empty e]
  show "\<exists>a msg. e = RetrieveError a msg \<and> Some msg \<in> set (take (length addresses) (faults d))"
    by (auto simp: GetCouples_def)
qed

theorem GetCouples_shape_witness:
  "\<exists>m. fst (GetCouples two_rows [100, 200, 300]) = Inr m \<and> dom m = {100, 200, 300}
       \<and> m 100 = Some [\<lparr>AnchorTimeMs = 500, SongID = 1\<rparr>] \<and> m 300 = Some []"
proof -
  have pk: "primary_key (fingerprints (stored two_rows))"
    by (simp add: primary_key_def two_rows_def empty_db_def)
  have cells: "uint32_cells (fingerprints (stored two_rows))"
    by (simp add: uint32_cells_def two_rows_def empty_db_def)
  have run: "runs (length [100, 200, 300 :: 32 word]) two_rows"
    by (simp add: runs_def two_rows_def empty_db_def)
  from GetCouples_shape [OF pk cells, of "[100, 200, 300]", THEN conjunct1, rule_format, OF run]
  obtain m where m: "fst (GetCouples two_rows [100, 200, 300]) = Inr m"
    "dom m = set [100, 200, 300]"
    "\<forall>a \<in> set [100, 200, 300]. \<exists>cs. m a = Some cs \<and> length cs \<le> 1
        \<and> (uint a \<notin> set (map row_address (fingerprints (stored two_rows))) \<longrightarrow> cs = [])
        \<and> (\<forall>r \<in> set (fingerprints (stored two_rows)).
               row_address r = uint a \<longrightarrow> cs = [row_couple r])"
    by blast
  from m(3) have "m 100 = Some [\<lparr>AnchorTimeMs = 500, SongID = 1\<rparr>]"
    by (simp add: two_rows_def empty_db_def row_couple_def)
  moreover from m(3) have "m 300 = Some []"
    by (simp add: two_rows_def empty_db_def)
  ultimately show ?thesis using m(1,2) by auto
qed

lemma stored_couples:
  assumes "distinct (map fst batch)" and "primary_key rows" and "(a, c) \<in> set batch"
  shows "scan_rows (map cells (rows_at (uint a) (store_rows batch rows))) = Inr [c]"
proof -
  from store_rows_entry [OF assms(1,3,2)]
  have "rows_at (uint a) (store_rows batch rows) = [couple_row a c]" .
  moreover have "uint32_cells [couple_row a c]"
    using uint32_lt [of "AnchorTimeMs c"] uint32_lt [of "SongID c"]
    by (simp add: uint32_cells_def couple_row_def)
  ultimately show ?thesis
    using scan_rows_cells [of "[couple_row a c]"] by (simp add: row_couple_couple_row)
qed

text \<open>
  Claim C3. Round trip: after a batch of unique addresses is stored with success,
  \<open>GetCouples\<close> on the addresses of the batch returns, when the engine runs its queries,
  the map from each address to the one couple stored for it.
\<close>

theorem StoreFingerprints_GetCouples_roundtrip:
  assumes "distinct (map fst batch)"
    and "primary_key (fingerprints (stored d))"
    and "StoreFingerprints d batch = (None, d1)"
    and "set addresses = fst ` set batch"
    and "runs (length addresses) d1"
  shows "fst (GetCouples d1 addresses) = Inr (map_of (map (\<lambda>(a, c). (a, [c])) batch))"
proof -
  let ?g = "\<lambda>a. [the (map_of batch a)]"
  from StoreFingerprints_stored [OF assms(3)]
  have rows: "fingerprints (stored d1) = store_rows batch (fingerprints (stored d))" by simp
  have scans: "\<forall>a \<in> set addresses.
      scan_rows (map cells (rows_at (uint a) (fingerprints (stored d1)))) = Inr (?g a)"
  proof
    fix a assume "a \<in> set addresses"
    with assms(4) obtain c where c: "(a, c) \<in> set batch" by auto
    with assms(1) have "map_of batch a = Some c" by simp
    with stored_couples [OF assms(1,2) c] rows
    show "scan_rows (map cells (rows_at (uint a) (fingerprints (stored d1)))) = Inr (?g a)"
      by simp
  qed
  have "(\<lambda>a. if a \<in> set addresses then Some (?g a) else None) =
      map_of (map (\<lambda>(a, c). (a, [c])) batch)"
  proof (rule ext)
    fix a
    have m: "map_of (map (\<lambda>(a, c). (a, [c])) batch) a = map_option (\<lambda>c. [c]) (map_of batch a)"
      by (induction batch) auto
    show "(if a \<in> set addresses then Some (?g a) else None) =
        map_of (map (\<lambda>(a, c). (a, [c])) batch) a"
    proof (cases "a \<in> set addresses")
      case True
      with assms(4) obtain c where "(a, c) \<in> set batch" by auto
      with assms(1) have "map_of batch a = Some c" by simp
      with True m show ?thesis by simp
    next
      case False
      with assms(4) have "map_of batch a = None" by (simp add: map_of_eq_None_iff)
      with False m show ?thesis by simp
    qed
  qed
  with GetCouples_loop_runs [OF assms(5) scans, of Map.empty]
  show ?thesis by (simp add: GetCouples_def)
qed

theorem StoreFingerprints_GetCouples_roundtrip_witness:
  "fst (GetCouples (snd (StoreFingerprints empty_db two_entries)) [100, 200]) =
     Inr [100 \<mapsto> [\<lparr>AnchorTimeMs = 500, SongID = 1\<rparr>], 200 \<mapsto> [\<lparr>AnchorTimeMs = 900, SongID = 2\<rparr>]]"
proof -
  have dist: "distinct (map fst two_entries)" by (simp add: two_entries_def)
  have pk: "primary_key (fingerprints (stored empty_db))"
    by (simp add: primary_key_def empty_db_def)
  have keys: "set [100, 200] = fst ` set two_entries" by (simp add: two_entries_def)
  have run: "runs (length [100, 200 :: 32 word])
      (empty_db\<lparr>stored := \<lparr>fingerprints =
          [\<lparr>row_address = 100, row_anchorTimeMs = 500, row_songID = 1\<rparr>,
           \<lparr>row_address = 200, row_anchorTimeMs = 900, row_songID = 2\<rparr>], songs = []\<rparr>,
        statements := [''BEGIN'', UPSERT_SQL, UPSERT_SQL, UPSERT_SQL, ''COMMIT'']\<rparr>)"
    by (simp add: runs_def empty_db_def)
  have "map_of (map (\<lambda>(a, c). (a, [c])) two_entries) =
      [100 \<mapsto> [\<lparr>AnchorTimeMs = 500, SongID = 1\<rparr>], 200 \<mapsto> [\<lparr>AnchorTimeMs = 900, SongID = 2\<rparr>]]"
    by (rule ext) (simp add: two_entries_def)
  with StoreFingerprints_GetCouples_roundtrip [OF dist pk store_empty keys run]
  show ?thesis by (simp add: store_empty)
qed

text \<open>
  Claim C4. Upsert overwrites: when address \<open>a\<close> is stored with \<open>o1\<close> and then with
  \<open>o2\<close>, the table holds one row for \<open>a\<close> after each store, and \<open>GetCouples\<close> returns
  exactly \<open>o2\<close> for \<open>a\<close>.
\<close>

theorem StoreFingerprints_overwrites:
  assumes "primary_key (fingerprints (stored d))"
    and "distinct (map fst first)" and "(a, o1) \<in> set first"
    and "distinct (map fst second)" and "(a, o2) \<in> set second"
    and "StoreFingerprints d first = (None, d1)"
    and "StoreFingerprints d1 second = (None, d2)"
    and "runs 1 d2"
  shows "rows_at (uint a) (fingerprints (stored d1)) = [couple_row a o1]
     \<and> rows_at (uint a) (fingerprints (stored d2)) = [couple_row a o2]
     \<and> fst (GetCouples d2 [a]) = Inr [a \<mapsto> [o2]]"
proof -
  from StoreFingerprints_stored [OF assms(6)]
  have rows1: "fingerprints (stored d1) = store_rows first (fingerprints (stored d))" by simp
  from StoreFingerprints_stored [OF assms(7)]
  have rows2: "fingerprints (stored d2) = store_rows second (fingerprints (stored d1))" by simp
  from rows1 store_rows_primary_key [OF assms(1)]
  have pk1: "primary_key (fingerprints (stored d1))" by simp
  from store_rows_entry [OF assms(2,3,1)] rows1
  have one: "rows_at (uint a) (fingerprints (stored d1)) = [couple_row a o1]" by simp
  from store_rows_entry [OF assms(4,5) pk1] rows2
  have two: "rows_at (uint a) (fingerprints (stored d2)) = [couple_row a o2]" by simp
  from stored_couples [OF assms(4) pk1 assms(5)] rows2
  have "\<forall>x \<in> set [a].
      scan_rows (map cells (rows_at (uint x) (fingerprints (stored d2)))) = Inr ((\<lambda>_. [o2]) x)"
    by simp
  from GetCouples_loop_runs [OF _ this, of Map.empty] assms(8)
  have "fst (GetCouples d2 [a]) = Inr (\<lambda>x. if x \<in> set [a] then Some [o2] else None)"
    by (simp add: GetCouples_def)
  moreover have "(\<lambda>x. if x \<in> set [a] then Some [o2] else None) = [a \<mapsto> [o2]]"
    by (rule ext) simp
  ultimately show ?thesis using one two by simp
qed

lemma store_first:
  "StoreFingerprints empty_db first_batch =
     (None, empty_db\<lparr>stored := \<lparr>fingerprints =
          [\<lparr>row_address = 100, row_anchorTimeMs = 500, row_songID = 1\<rparr>], songs = []\<rparr>,
        statements := [''BEGIN'', UPSERT_SQL, UPSERT_SQL, ''COMMIT'']\<rparr>)"
  by (simp add: StoreFingerprints_def Begin_def Prepare_def Stmt_Exec_def Commit_def Rollback_def
      engine_call_def empty_db_def first_batch_def upsert_def)

lemma store_second:
  "StoreFingerprints (empty_db\<lparr>stored := \<lparr>fingerprints =
          [\<lparr>row_address = 100, row_anchorTimeMs = 500, row_songID = 1\<rparr>], songs = []\<rparr>,
        statements := [''BEGIN'', UPSERT_SQL, UPSERT_SQL, ''COMMIT'']\<rparr>) second_batch =
     (None, empty_db\<lparr>stored := \<lparr>fingerprints =
          [\<lparr>row_address = 100, row_anchorTimeMs = 700, row_songID = 3\<rparr>], songs = []\<rparr>,
        statements := [''BEGIN'', UPSERT_SQL, UPSERT_SQL, ''COMMIT'',
                       ''BEGIN'', UPSERT_SQL, UPSERT_SQL, ''COMMIT'']\<rparr>)"
  by (simp add: StoreFingerprints_def Begin_def Prepare_def Stmt_Exec_def Commit_def Rollback_def
      engine_call_def empty_db_def second_batch_def upsert_def)

theorem StoreFingerprints_overwrites_witness:
  "fst (GetCouples (snd (StoreFingerprints (snd (StoreFingerprints empty_db first_batch)) second_batch))
        [100]) = Inr [100 \<mapsto> [\<lparr>AnchorTimeMs = 700, SongID = 3\<rparr>]]"
proof -
  have pk: "primary_key (fingerprints (stored empty_db))"
    by (simp add: primary_key_def empty_db_def)
  have d1: "distinct (map fst first_batch)" "(100, \<lparr>AnchorTimeMs = 500, SongID = 1\<rparr>) \<in> set first_batch"
    by (simp_all add: first_batch_def)
  have d2: "distinct (map fst second_batch)" "(100, \<lparr>AnchorTimeMs = 700, SongID = 3\<rparr>) \<in> set second_batch"
    by (simp_all add: second_batch_def)
  have run: "runs 1 (empty_db\<lparr>stored := \<lparr>fingerprints =
          [\<lparr>row_address = 100, row_anchorTimeMs = 700, row_songID = 3\<rparr>], songs = []\<rparr>,
        statements := [''BEGIN'', UPSERT_SQL, UPSERT_SQL, ''COMMIT'',
                       ''BEGIN'', UPSERT_SQL, UPSERT_SQL, ''COMMIT'']\<rparr>)"
    by (simp add: runs_def empty_db_def)
  from StoreFingerprints_overwrites [OF pk d1 d2 store_first store_second run]
  show ?thesis by (simp add: store_first store_second)
qed

section \<open>Properties of \<^verbatim>\<open>RegisterSong\<close>\<close>

lemma unique_messages:
  "Contains ''UNIQUE constraint failed: songs.id'' ''UNIQUE constraint failed''"
  "Contains ''UNIQUE constraint failed: songs.key'' ''UNIQUE constraint failed''"
  "Contains ''UNIQUE constraint failed: songs.ytID'' ''UNIQUE constraint failed''"
  by code_simp+

lemma Exec_insert_song_runs:
  assumes "runs 1 d"
  shows "fst (Exec_insert_song i k y d) =
           (if i \<in> set (map song_id (songs (stored d)))
            then Some ''UNIQUE constraint failed: songs.id''
            else if k \<in> set (map song_key (songs (stored d)))
            then Some ''UNIQUE constraint failed: songs.key''
            else if y \<in> set (map song_ytID (songs (stored d)))
            then Some ''UNIQUE constraint failed: songs.ytID''
            else None)"
  using engine_call_runs [of 0 d INSERT_SONG_SQL] engine_call_stored [of INSERT_SONG_SQL d] assms
  by (cases "engine_call INSERT_SONG_SQL d") (auto simp: Exec_insert_song_def)

lemma Exec_insert_song_fault:
  "faults d = Some msg # fs \<Longrightarrow> fst (Exec_insert_song i k y d) = Some msg"
  by (simp add: Exec_insert_song_def engine_call_def)

lemma Exec_insert_song_stored:
  "stored (snd (Exec_insert_song i k y d)) =
     (if fst (Exec_insert_song i k y d) = None
      then (stored d)\<lparr>songs := songs (stored d) @ [\<lparr>song_id = i, song_key = k, song_ytID = y\<rparr>]\<rparr>
      else stored d)"
  using engine_call_stored [of INSERT_SONG_SQL d]
  by (cases "engine_call INSERT_SONG_SQL d") (auto simp: Exec_insert_song_def split: option.splits)

lemma RegisterSong_fst:
  "fst (RegisterSong n d t a y) =
     (case fst (Exec_insert_song (uint n) (GenerateSongKey t a) y d) of
        None \<Rightarrow> Inr n
      | Some e \<Rightarrow> if Contains e ''UNIQUE constraint failed''
                  then Inl (DuplicateSong e) else Inl (WriteError e))"
  by (cases "Exec_insert_song (uint n) (GenerateSongKey t a) y d")
     (simp add: RegisterSong_def split: option.splits)

lemma RegisterSong_snd:
  "snd (RegisterSong n d t a y) = snd (Exec_insert_song (uint n) (GenerateSongKey t a) y d)"
  by (cases "Exec_insert_song (uint n) (GenerateSongKey t a) y d")
     (simp add: RegisterSong_def split: option.splits)

text \<open>
  Claim C8. When the engine runs the insert and the derived key or the \<open>ytID\<close> is already
  in the registry, \<open>RegisterSong\<close> fails with \<open>DuplicateSong\<close> and the tables stay as
  they were; an engine failure whose message is not a uniqueness violation fails with
  \<open>WriteError\<close>; a success returns the identifier drawn for this call, stored with the
  key and the \<open>ytID\<close>; these are the only two errors, and their messages differ.
\<close>

theorem RegisterSong_outcomes:
  "(runs 1 d \<and> (GenerateSongKey t a \<in> set (map song_key (songs (stored d)))
                  \<or> y \<in> set (map song_ytID (songs (stored d)))) \<longrightarrow>
      (\<exists>m. fst (RegisterSong n d t a y) = Inl (DuplicateSong m))
      \<and> stored (snd (RegisterSong n d t a y)) = stored d)
   \<and> (\<forall>msg fs. faults d = Some msg # fs \<and> \<not> Contains msg ''UNIQUE constraint failed'' \<longrightarrow>
        fst (RegisterSong n d t a y) = Inl (WriteError msg)
        \<and> stored (snd (RegisterSong n d t a y)) = stored d)
   \<and> (\<forall>i. fst (RegisterSong n d t a y) = Inr i \<longrightarrow>
        i = n \<and> songs (stored (snd (RegisterSong n d t a y))) =
          songs (stored d) @ [\<lparr>song_id = uint n, song_key = GenerateSongKey t a, song_ytID = y\<rparr>])
   \<and> (\<forall>e. fst (RegisterSong n d t a y) = Inl e \<longrightarrow>
        (\<exists>m. e = DuplicateSong m) \<or> (\<exists>m. e = WriteError m))
   \<and> (\<forall>m m'. Error (DuplicateSong m) \<noteq> Error (WriteError m'))"
proof (intro conjI impI allI)
  assume h: "runs 1 d \<and> (GenerateSongKey t a \<in> set (map song_key (songs (stored d)))
                  \<or> y \<in> set (map song_ytID (songs (stored d))))"
  then have "\<exists>m. fst (Exec_insert_song (uint n) (GenerateSongKey t a) y d) = Some m
      \<and> Contains m ''UNIQUE constraint failed''"
    using Exec_insert_song_runs [of d "uint n" "GenerateSongKey t a" y] unique_messages by auto
  then obtain m where m: "fst (Exec_insert_song (uint n) (GenerateSongKey t a) y d) = Some m"
    "Contains m ''UNIQUE constraint failed''" by blast
  then show "\<exists>m. fst (RegisterSong n d t a y) = Inl (DuplicateSong m)"
    by (simp add: RegisterSong_fst)
  from m show "stored (snd (RegisterSong n d t a y)) = stored d"
    by (simp add: RegisterSong_snd Exec_insert_song_stored)
next
  fix msg fs
  assume h: "faults d = Some msg # fs \<and> \<not> Contains msg ''UNIQUE constraint failed''"
  then have m: "fst (Exec_insert_song (uint n) (GenerateSongKey t a) y d) = Some msg"
    by (simp add: Exec_insert_song_fault)
  with h show "fst (RegisterSong n d t a y) = Inl (WriteError msg)"
    by (simp add: RegisterSong_fst)
  from m show "stored (snd (RegisterSong n d t a y)) = stored d"
    by (simp add: RegisterSong_snd Exec_insert_song_stored)
next
  fix i
  assume ok: "fst (RegisterSong n d t a y) = Inr i"
  then have none: "fst (Exec_insert_song (uint n) (GenerateSongKey t a) y d) = None"
    by (auto simp: RegisterSong_fst split: option.splits if_splits)
  with ok show "i = n" by (simp add: RegisterSong_fst)
  from none show "songs (stored (snd (RegisterSong n d t a y))) =
      songs (stored d) @ [\<lparr>song_id = uint n, song_key = GenerateSongKey t a, song_ytID = y\<rparr>]"
    by (simp add: RegisterSong_snd Exec_insert_song_stored)
next
  fix e
  assume "fst (RegisterSong n d t a y) = Inl e"
  then show "(\<exists>m. e = DuplicateSong m) \<or> (\<exists>m. e = WriteError m)"
    by (auto simp: RegisterSong_fst split: option.splits if_splits)
next
  fix m m'
  show "Error (DuplicateSong m) \<noteq> Error (WriteError m')" by simp
qed

lemma io_error_message: "\<not> Contains ''disk I/O error'' ''UNIQUE constraint failed''"
  by code_simp

lemma register_fresh:
  "fst (RegisterSong 7 two_songs ''Song C'' ''Artist Z'' ''yt789'') = Inr 7"
  by (simp add: RegisterSong_def Exec_insert_song_def engine_call_def two_songs_def empty_db_def
      GenerateSongKey_def)

theorem RegisterSong_outcomes_witness:
  "(\<exists>m. fst (RegisterSong 7 two_songs ''Song A'' ''Artist X'' ''yt789'') = Inl (DuplicateSong m))
   \<and> (\<exists>m. fst (RegisterSong 7 two_songs ''Song C'' ''Artist Z'' ''yt123'') = Inl (DuplicateSong m))
   \<and> fst (RegisterSong 7 (two_songs\<lparr>faults := [Some ''disk I/O error'']\<rparr>)
            ''Song C'' ''Artist Z'' ''yt789'') = Inl (WriteError ''disk I/O error'')
   \<and> songs (stored (snd (RegisterSong 7 two_songs ''Song C'' ''Artist Z'' ''yt789''))) =
        songs (stored two_songs) @
          [\<lparr>song_id = 7, song_key = ''Song C---Artist Z'', song_ytID = ''yt789''\<rparr>]"
proof -
  have run: "runs 1 two_songs" by (simp add: runs_def two_songs_def empty_db_def)
  have key: "GenerateSongKey ''Song A'' ''Artist X'' \<in> set (map song_key (songs (stored two_songs)))"
    by (simp add: GenerateSongKey_def two_songs_def empty_db_def)
  have yt: "''yt123'' \<in> set (map song_ytID (songs (stored two_songs)))"
    by (simp add: two_songs_def empty_db_def)
  have fault: "faults (two_songs\<lparr>faults := [Some ''disk I/O error'']\<rparr>) = Some ''disk I/O error'' # []"
    by simp
  from RegisterSong_outcomes [of two_songs "''Song A''" "''Artist X''" "''yt789''" 7] run key
  have a: "\<exists>m. fst (RegisterSong 7 two_songs ''Song A'' ''Artist X'' ''yt789'') = Inl (DuplicateSong m)"
    by blast
  from RegisterSong_outcomes [of two_songs "''Song C''" "''Artist Z''" "''yt123''" 7] run yt
  have b: "\<exists>m. fst (RegisterSong 7 two_songs ''Song C'' ''Artist Z'' ''yt123'') = Inl (DuplicateSong m)"
    by blast
  from RegisterSong_outcomes [of "two_songs\<lparr>faults := [Some ''disk I/O error'']\<rparr>"
      "''Song C''" "''Artist Z''" "''yt789''" 7] fault io_error_message
  have c: "fst (RegisterSong 7 (two_songs\<lparr>faults := [Some ''disk I/O error'']\<rparr>)
      ''Song C'' ''Artist Z'' ''yt789'') = Inl (WriteError ''disk I/O error'')"
    by blast
  from RegisterSong_outcomes [of two_songs "''Song C''" "''Artist Z''" "''yt789''" 7] register_fresh
  have "songs (stored (snd (RegisterSong 7 two_songs ''Song C'' ''Artist Z'' ''yt789''))) =
      songs (stored two_songs) @
        [\<lparr>song_id = uint (7 :: 32 word), song_key = GenerateSongKey ''Song C'' ''Artist Z'',
          song_ytID = ''yt789''\<rparr>]"
    by blast
  then have d: "songs (stored (snd (RegisterSong 7 two_songs ''Song C'' ''Artist Z'' ''yt789''))) =
      songs (stored two_songs) @
        [\<lparr>song_id = 7, song_key = ''Song C---Artist Z'', song_ytID = ''yt789''\<rparr>]"
    by (simp add: GenerateSongKey_def)
  from a b c d show ?thesis by blast
qed

end
